theory Spec2Isabelle
  imports Main "HOL-Library.AList" "HOL-Library.Sublist"
begin

section \<open>The mongo hook of pm-esd/logger (mongohook/hook.go)\<close>

text \<open>
  The hook receives log entries from logrus, annotates them with the call site,
  copies them and hands the copy to a job queue; a worker later runs the dispatch
  pipeline \<open>Hook.exec\<close> on the copy.  Go maps are heap objects shared by
  reference, so the field mappings live in an explicit store and an entry holds
  the address of its mapping.
\<close>

subsection \<open>Data of the logging facility\<close>

text \<open>
  \<open>interface{}\<close> values of a field mapping.  Strings are what \<open>Fire\<close> writes;
  \<open>VPtr\<close> stands for any reference-like value, whose identity is its address.
\<close>

datatype val = VStr string | VInt int | VPtr nat

text \<open>
  \<open>logrus.Fields\<close> is \<open>map[string]interface{}\<close>.  A mapping is kept as the list of
  its key/value pairs in the order a \<open>range\<close> statement visits them; \<open>map_of\<close>
  reads it and \<open>AList.update\<close> is the assignment \<open>m[k] = v\<close>.
\<close>

type_synonym Fields = "(string \<times> val) list"

text \<open>\<open>logrus.Level\<close>: the constants of logrus, declared by \<open>iota\<close> from \<open>PanicLevel\<close> = 0.\<close>

datatype Level =
  PanicLevel | FatalLevel | ErrorLevel | WarnLevel | InfoLevel | DebugLevel | TraceLevel

fun level_value :: "Level \<Rightarrow> nat" where
  "level_value PanicLevel = 0"
| "level_value FatalLevel = 1"
| "level_value ErrorLevel = 2"
| "level_value WarnLevel = 3"
| "level_value InfoLevel = 4"
| "level_value DebugLevel = 5"
| "level_value TraceLevel = 6"

text \<open>What \<open>runtime.FuncForPC\<close> and \<open>runtime.Caller\<close> tell about one stack frame.\<close>

record Frame =
  Function :: string
  File :: string
  Line :: int

record Logger =
  ReportCaller :: bool

type_synonym addr = nat

text \<open>
  \<open>logrus.Entry\<close>, with the fields this package reads or writes.  \<open>Logger\<close> and
  \<open>Caller\<close> are pointers (\<open>None\<close> is nil); \<open>Data\<close> is the address of the mapping.
  logrus gives every entry a mapping (\<open>NewEntry\<close>, \<open>WithFields\<close>), so \<open>Data\<close> is not nil.
\<close>

record Entry =
  Logger :: "Logger option"
  Data :: addr
  Time :: int
  Level :: Level
  Caller :: "Frame option"
  Message :: string

text \<open>\<open>Entry.HasCaller\<close> of logrus 1.6.0.\<close>

definition HasCaller :: "Entry \<Rightarrow> bool" where
  "HasCaller entry =
     (case Logger entry of
        None \<Rightarrow> False
      | Some l \<Rightarrow> ReportCaller l \<and> Caller entry \<noteq> None)"

subsection \<open>The world outside the hook\<close>

datatype Writer = Stderr | OtherWriter nat

text \<open>
  \<open>cells\<close> is the store of field mappings and \<open>nxt\<close> the next unused address;
  \<open>calls\<close> lists the arguments of every \<open>Exec\<close> call of the backend (the entry
  and its mapping at the time of the call), \<open>persisted\<close> those that the backend
  accepted, \<open>written\<close> the writes to output sinks and \<open>logged\<close> the messages sent
  to the logrus standard logger.
\<close>

record world =
  cells :: "addr \<Rightarrow> Fields"
  nxt :: addr
  calls :: "(Entry \<times> Fields) list"
  persisted :: "(Entry \<times> Fields) list"
  written :: "(Writer \<times> string) list"
  logged :: "(Level \<times> string) list"

definition fields_of :: "world \<Rightarrow> Entry \<Rightarrow> string \<rightharpoonup> val" where
  "fields_of w entry = map_of (cells w (Data entry))"

text \<open>\<open>make(logrus.Fields)\<close>: a new, empty mapping at an unused address.\<close>

definition make_Fields :: "world \<Rightarrow> addr \<times> world" where
  "make_Fields w = (nxt w, w\<lparr>cells := (cells w)(nxt w := []), nxt := Suc (nxt w)\<rparr>)"

text \<open>\<open>logrus.NewEntry\<close>: a new entry of the logger, with a mapping of its own.\<close>

definition NewEntry :: "Logger option \<Rightarrow> world \<Rightarrow> Entry \<times> world" where
  "NewEntry l w =
     (let (a, w') = make_Fields w
      in (\<lparr>Logger = l, Data = a, Time = 0, Level = PanicLevel, Caller = None, Message = []\<rparr>, w'))"

subsection \<open>Options\<close>

text \<open>
  Modelled from the spec: the interface \<open>ExecCloser\<close> is declared outside
  hook.go; the spec gives it as \<open>Exec(entry) -> error|nil\<close>.  A backend maps the
  entry and its mapping to nil or to the message of the error it returns.
\<close>

type_synonym ExecCloser = "Entry \<Rightarrow> Fields \<Rightarrow> string option"

type_synonym FilterHandle = "Entry \<Rightarrow> world \<Rightarrow> Entry \<times> world"

record options =
  maxQueues :: int
  maxWorkers :: int
  extra :: "Fields option"
  exec :: "ExecCloser option"
  filterH :: "FilterHandle option"
  levels :: "Level list"
  out :: "Writer option"

definition defaultOptions :: options where
  "defaultOptions =
     \<lparr>maxQueues = 512, maxWorkers = 2, extra = None, exec = None, filterH = None,
      levels = [FatalLevel, ErrorLevel, WarnLevel, InfoLevel, DebugLevel],
      out = Some Stderr\<rparr>"

type_synonym Option = "options \<Rightarrow> options"

definition SetMaxQueues :: "int \<Rightarrow> Option" where
  "SetMaxQueues n = (\<lambda>os. os\<lparr>maxQueues := n\<rparr>)"

definition SetMaxWorkers :: "int \<Rightarrow> Option" where
  "SetMaxWorkers n = (\<lambda>os. os\<lparr>maxWorkers := n\<rparr>)"

definition SetExtra :: "Fields option \<Rightarrow> Option" where
  "SetExtra ex = (\<lambda>os. os\<lparr>extra := ex\<rparr>)"

definition SetExec :: "ExecCloser option \<Rightarrow> Option" where
  "SetExec b = (\<lambda>os. os\<lparr>exec := b\<rparr>)"

definition SetFilter :: "FilterHandle option \<Rightarrow> Option" where
  "SetFilter f = (\<lambda>os. os\<lparr>filterH := f\<rparr>)"

definition SetLevels :: "Level list \<Rightarrow> Option" where
  "SetLevels ls = (\<lambda>os. if length ls = 0 then os else os\<lparr>levels := ls\<rparr>)"

definition SetOut :: "Writer option \<Rightarrow> Option" where
  "SetOut wr = (\<lambda>os. os\<lparr>out := wr\<rparr>)"

subsection \<open>The job queue\<close>

text \<open>
  Modelled from the spec: the queue is the library github.com/pm-esd/queue, which
  is not part of the sources.  Following section 4.1 of the spec, \<open>Push\<close> enqueues
  a job while the queue runs and \<open>Terminate\<close> returns once every buffered job has
  been executed, after which the queue accepts no more work.  The workers are
  sequentialised: the buffered jobs run in the order of their submission when the
  queue is terminated.  Every job of this package carries an entry and the callback
  \<open>h.exec\<close>, so a job is kept as its entry.
\<close>

record Queue =
  capacity :: int
  workers :: int
  running :: bool
  jobs :: "Entry list"

definition NewQueue :: "int \<Rightarrow> int \<Rightarrow> Queue" where
  "NewQueue c n = \<lparr>capacity = c, workers = n, running = False, jobs = []\<rparr>"

definition Run :: "Queue \<Rightarrow> Queue" where
  "Run qu = qu\<lparr>running := True\<rparr>"

definition Push :: "Queue \<Rightarrow> Entry \<Rightarrow> Queue" where
  "Push qu j = (if running qu then qu\<lparr>jobs := jobs qu @ [j]\<rparr> else qu)"

subsection \<open>The hook\<close>

record Hook =
  opts :: options
  q :: Queue

definition New :: "Option list \<Rightarrow> world \<Rightarrow> Hook \<times> world" where
  "New opt w =
     (let os = fold (\<lambda>f acc. f acc) opt defaultOptions;
          w' = (case exec os of
                  None \<Rightarrow> w\<lparr>logged := logged w @ [(InfoLevel, ''Unknown Execer interface implementation'')]\<rparr>
                | Some _ \<Rightarrow> w);
          qu = Run (NewQueue (maxQueues os) (maxWorkers os))
      in (\<lparr>opts = os, q = qu\<rparr>, w'))"

definition Levels :: "Hook \<Rightarrow> Level list" where
  "Levels h = levels (opts h)"

subsection \<open>Call-site resolution\<close>

text \<open>\<open>strings.Contains s sub\<close>: \<open>sub\<close> occurs in \<open>s\<close> as a contiguous block.\<close>

fun strings_Contains :: "string \<Rightarrow> string \<Rightarrow> bool" where
  "strings_Contains [] sub = (sub = [])"
| "strings_Contains (c # s) sub = (prefix sub (c # s) \<or> strings_Contains s sub)"

text \<open>\<open>path.Base\<close> of the Go standard library.\<close>

definition path_Base :: "string \<Rightarrow> string" where
  "path_Base p =
     (if p = [] then ''.''
      else
        (let p1 = rev (dropWhile (\<lambda>c. c = CHR ''/'') (rev p));
             p2 = rev (takeWhile (\<lambda>c. c \<noteq> CHR ''/'') (rev p1))
         in if p2 = [] then ''/'' else p2))"

text \<open>The verb \<open>%d\<close>: an integer in decimal.\<close>

fun decimal :: "nat \<Rightarrow> string" where
  "decimal n =
     (if n < 10 then [''0123456789'' ! n]
      else decimal (n div 10) @ [''0123456789'' ! (n mod 10)])"

declare decimal.simps [simp del]

definition format_d :: "int \<Rightarrow> string" where
  "format_d i = (if i < 0 then CHR ''-'' # decimal (nat (- i)) else decimal (nat i))"

text \<open>\<open>fmt.Sprintf("%s:%d", file, line)\<close>.\<close>

definition Sprintf_s_d :: "string \<Rightarrow> int \<Rightarrow> string" where
  "Sprintf_s_d file line = file @ '':'' @ format_d line"

text \<open>
  The call stack of the goroutine that runs \<open>Fire\<close>, innermost frame first: frame 0
  is \<open>Fire\<close> itself.  \<open>runtime.Callers(skip, pc)\<close> counts \<open>Callers\<close> as frame 0 and
  its caller as frame 1, and fills at most \<open>len(pc)\<close> slots; \<open>runtime.Caller(skip)\<close>
  counts its caller as frame 0 and reports whether the frame exists.  \<open>Fire\<close> calls
  them with \<open>skip\<close> 6 and 8; \<open>runtime_Callers\<close> is meant for \<open>skip\<close> of at least 1.
\<close>

definition runtime_Callers :: "nat \<Rightarrow> nat \<Rightarrow> Frame list \<Rightarrow> Frame list" where
  "runtime_Callers skip n stk = take n (drop (skip - 1) stk)"

definition runtime_Caller :: "nat \<Rightarrow> Frame list \<Rightarrow> Frame option" where
  "runtime_Caller skip stk = (if skip < length stk then Some (stk ! skip) else None)"

text \<open>The two assignments \<open>entry.Data["file"] = ...\<close> and \<open>entry.Data["func"] = ...\<close>.\<close>

definition set_location :: "Frame \<Rightarrow> Fields \<Rightarrow> Fields" where
  "set_location fu d =
     AList.update ''func'' (VStr (path_Base (Function fu)))
       (AList.update ''file'' (VStr (Sprintf_s_d (File fu) (Line fu))) d)"

text \<open>
  The loop of \<open>Fire\<close> over the frames that \<open>runtime.Callers\<close> returned; \<open>c8\<close> is the
  result of \<open>runtime.Caller(8)\<close>.
\<close>

fun resolve_loop :: "Frame list \<Rightarrow> Frame option \<Rightarrow> Fields \<Rightarrow> Fields" where
  "resolve_loop [] c8 d = d"
| "resolve_loop (fu # pcs) c8 d =
     (if \<not> strings_Contains (Function fu) ''github.com/sirupsen/logrus''
      then set_location fu d
      else resolve_loop pcs c8
             (case c8 of None \<Rightarrow> d | Some f8 \<Rightarrow> set_location f8 d))"

subsection \<open>Fire, copyEntry, exec and Flush\<close>

text \<open>The loop \<open>for k, v := range e.Data { entry.Data[k] = v }\<close>.\<close>

fun copy_fields :: "Fields \<Rightarrow> Fields \<Rightarrow> Fields" where
  "copy_fields [] dst = dst"
| "copy_fields ((k, v) # kvs) dst = copy_fields kvs (AList.update k v dst)"

definition copyEntry :: "Hook \<Rightarrow> Entry \<Rightarrow> world \<Rightarrow> Entry \<times> world" where
  "copyEntry h e w =
     (let (entry0, w0) = NewEntry (Logger e) w;
          (a, w1) = make_Fields w0;
          entry = entry0\<lparr>Data := a, Time := Time e, Level := Level e, Message := Message e\<rparr>;
          w2 = w1\<lparr>cells := (cells w1)(a := copy_fields (cells w1 (Data e)) (cells w1 a))\<rparr>
      in (entry, w2))"

text \<open>The block of \<open>Fire\<close> under \<open>if entry.HasCaller()\<close>: it writes into the entry's own mapping.\<close>

definition annotate :: "Frame list \<Rightarrow> Entry \<Rightarrow> world \<Rightarrow> world" where
  "annotate stk entry w =
     (if HasCaller entry
      then w\<lparr>cells := (cells w)(Data entry :=
                resolve_loop (runtime_Callers 6 3 stk) (runtime_Caller 8 stk)
                  (cells w (Data entry)))\<rparr>
      else w)"

text \<open>
  \<open>Fire\<close>, called on the stack \<open>stk\<close>: the annotation, the copy, the job pushed to the
  queue, and the result \<open>nil\<close>.
\<close>

definition Fire :: "Hook \<Rightarrow> Frame list \<Rightarrow> Entry \<Rightarrow> world \<Rightarrow> string option \<times> Hook \<times> world" where
  "Fire h stk entry w =
     (let w1 = annotate stk entry w;
          (entry', w2) = copyEntry h entry w1
      in (None, h\<lparr>q := Push (q h) entry'\<rparr>, w2))"

text \<open>The loop of \<open>exec\<close> over the extra fields.\<close>

fun merge_extra :: "Fields \<Rightarrow> Fields \<Rightarrow> Fields" where
  "merge_extra [] d = d"
| "merge_extra ((k, v) # kvs) d =
     merge_extra kvs (case map_of d k of None \<Rightarrow> AList.update k v d | Some _ \<Rightarrow> d)"

datatype panic = NilPointerDereference

text \<open>The first step of \<open>exec\<close>: the extra fields.\<close>

definition merge_step :: "Hook \<Rightarrow> Entry \<Rightarrow> world \<Rightarrow> world" where
  "merge_step h entry w =
     (case extra (opts h) of
        None \<Rightarrow> w
      | Some ex \<Rightarrow> w\<lparr>cells := (cells w)(Data entry := merge_extra ex (cells w (Data entry)))\<rparr>)"

text \<open>The second step of \<open>exec\<close>: the filter.\<close>

definition filter_step :: "Hook \<Rightarrow> Entry \<Rightarrow> world \<Rightarrow> Entry \<times> world" where
  "filter_step h entry w =
     (case filterH (opts h) of None \<Rightarrow> (entry, w) | Some f \<Rightarrow> f entry w)"

text \<open>
  The last step of \<open>exec\<close>: the call \<open>h.opts.exec.Exec(entry)\<close>, a method call on a
  nil interface when no backend is configured, and the report of its error.
\<close>

definition backend_step :: "Hook \<Rightarrow> Entry \<Rightarrow> world \<Rightarrow> panic + world" where
  "backend_step h entry w =
     (case exec (opts h) of
        None \<Rightarrow> Inl NilPointerDereference
      | Some b \<Rightarrow>
          (let d = cells w (Data entry);
               w1 = w\<lparr>calls := calls w @ [(entry, d)]\<rparr>
           in case b entry d of
                None \<Rightarrow> Inr (w1\<lparr>persisted := persisted w1 @ [(entry, d)]\<rparr>)
              | Some msg \<Rightarrow>
                  (case out (opts h) of
                     None \<Rightarrow> Inr w1
                   | Some wr \<Rightarrow>
                       Inr (w1\<lparr>written := written w1 @
                              [(wr, ''[Mongo-Hook] Execution error: '' @ msg)]\<rparr>))))"

definition Hook_exec :: "Hook \<Rightarrow> Entry \<Rightarrow> world \<Rightarrow> panic + world" where
  "Hook_exec h entry w =
     (let w1 = merge_step h entry w;
          (entry', w2) = filter_step h entry w1
      in backend_step h entry' w2)"

text \<open>The buffered jobs, each running \<open>h.exec\<close> on its entry; a panic ends the process.\<close>

fun run_jobs :: "Hook \<Rightarrow> Entry list \<Rightarrow> world \<Rightarrow> panic + world" where
  "run_jobs h [] w = Inr w"
| "run_jobs h (j # js) w =
     (case Hook_exec h j w of Inl p \<Rightarrow> Inl p | Inr w' \<Rightarrow> run_jobs h js w')"

text \<open>\<open>Flush\<close> is \<open>h.q.Terminate()\<close>.\<close>

definition Flush :: "Hook \<Rightarrow> world \<Rightarrow> panic + Hook \<times> world" where
  "Flush h w =
     (if running (q h)
      then (case run_jobs h (jobs (q h)) w of
              Inl p \<Rightarrow> Inl p
            | Inr w' \<Rightarrow> Inr (h\<lparr>q := (q h)\<lparr>running := False, jobs := []\<rparr>\<rparr>, w'))
      else Inr (h, w))"

text \<open>A producer that calls \<open>Fire\<close> for one entry after the other.\<close>

fun fire_all :: "Hook \<Rightarrow> (Frame list \<times> Entry) list \<Rightarrow> world \<Rightarrow> Hook \<times> world" where
  "fire_all h [] w = (h, w)"
| "fire_all h ((stk, e) # es) w =
     (case Fire h stk e w of (err, h', w') \<Rightarrow> fire_all h' es w')"

subsection \<open>The resolver as the specification words it\<close>

text \<open>A frame qualifies when its function is not one of logrus, by the test of \<open>Fire\<close>.\<close>

definition qualifies :: "Frame \<Rightarrow> bool" where
  "qualifies fu = (\<not> strings_Contains (Function fu) ''github.com/sirupsen/logrus'')"

text \<open>
  The specification: search the window for the first qualifying frame; if there is
  none, fall back to the single lookup at a fixed depth.
\<close>

definition resolveCallSite :: "Frame list \<Rightarrow> Frame option \<Rightarrow> Frame option" where
  "resolveCallSite window fallback =
     (case find qualifies window of Some fu \<Rightarrow> Some fu | None \<Rightarrow> fallback)"

text \<open>The fields \<open>file\<close> and \<open>func\<close> of a resolved frame, added to a mapping.\<close>

definition with_location :: "Frame option \<Rightarrow> (string \<rightharpoonup> val) \<Rightarrow> (string \<rightharpoonup> val)" where
  "with_location r m =
     (case r of
        None \<Rightarrow> m
      | Some fu \<Rightarrow> m(''file'' \<mapsto> VStr (Sprintf_s_d (File fu) (Line fu)),
                     ''func'' \<mapsto> VStr (path_Base (Function fu))))"

subsection \<open>Example data\<close>

text \<open>
  A store with one mapping, an entry of a logger that reports callers, the stack of
  a call \<open>logger.Info(...)\<close> in \<open>cart.Checkout\<close>, a backend that always fails and a
  hook with two extra fields.
\<close>

definition example_world :: world where
  "example_world =
     \<lparr>cells = (\<lambda>a. [])(0 := [(''app'', VStr ''mine''), (''payload'', VPtr 7)]),
      nxt = 1, calls = [], persisted = [], written = [], logged = []\<rparr>"

definition example_stack :: "Frame list" where
  "example_stack =
     [\<lparr>Function = ''github.com/pm-esd/logger/mongohook.(*Hook).Fire'',
       File = ''/go/mongohook/hook.go'', Line = 154\<rparr>,
      \<lparr>Function = ''github.com/sirupsen/logrus.LevelHooks.Fire'',
       File = ''/go/logrus/hooks.go'', Line = 28\<rparr>,
      \<lparr>Function = ''github.com/sirupsen/logrus.(*Entry).fireHooks'',
       File = ''/go/logrus/entry.go'', Line = 272\<rparr>,
      \<lparr>Function = ''github.com/sirupsen/logrus.Entry.log'',
       File = ''/go/logrus/entry.go'', Line = 241\<rparr>,
      \<lparr>Function = ''github.com/sirupsen/logrus.(*Entry).Log'',
       File = ''/go/logrus/entry.go'', Line = 293\<rparr>,
      \<lparr>Function = ''github.com/sirupsen/logrus.(*Logger).Log'',
       File = ''/go/logrus/logger.go'', Line = 198\<rparr>,
      \<lparr>Function = ''github.com/sirupsen/logrus.(*Logger).Info'',
       File = ''/go/logrus/logger.go'', Line = 220\<rparr>,
      \<lparr>Function = ''example.com/shop/cart.Checkout'',
       File = ''/app/cart/cart.go'', Line = 42\<rparr>,
      \<lparr>Function = ''main.main'', File = ''/app/main.go'', Line = 10\<rparr>]"

definition example_entry :: Entry where
  "example_entry =
     \<lparr>Logger = Some \<lparr>ReportCaller = True\<rparr>, Data = 0, Time = 1700000000, Level = InfoLevel,
      Caller = Some \<lparr>Function = ''example.com/shop/cart.Checkout'',
                     File = ''/app/cart/cart.go'', Line = 42\<rparr>,
      Message = ''order placed''\<rparr>"

definition disk_full :: ExecCloser where
  "disk_full = (\<lambda>entry d. Some ''disk full'')"

definition example_hook :: Hook where
  "example_hook =
     \<lparr>opts = defaultOptions\<lparr>extra := Some [(''app'', VStr ''global''), (''env'', VStr ''prod'')],
                              exec := Some disk_full\<rparr>,
      q = Run (NewQueue 512 2)\<rparr>"

text \<open>A filter that returns its input unchanged.\<close>

definition identity_filter :: FilterHandle where
  "identity_filter = (\<lambda>entry w. (entry, w))"

section \<open>Properties\<close>

subsection \<open>Field mappings\<close>

lemma strings_Contains_sublist: "strings_Contains s sub = sublist sub s"
  by (induction s) (auto simp: sublist_Cons_right)

lemma map_of_set_location:
  "map_of (set_location fu d) =
     (map_of d)(''file'' \<mapsto> VStr (Sprintf_s_d (File fu) (Line fu)),
                ''func'' \<mapsto> VStr (path_Base (Function fu)))"
  by (simp add: set_location_def update_conv')

lemma map_of_merge_extra:
  "map_of (merge_extra ex d) k =
     (case map_of d k of Some v \<Rightarrow> Some v | None \<Rightarrow> map_of ex k)"
proof (induction ex arbitrary: d)
  case Nil
  then show ?case by (simp split: option.split)
next
  case (Cons p ex)
  obtain k' v' where p: "p = (k', v')" by (cases p)
  show ?case
    by (simp add: p Cons.IH update_conv' split: option.split)
qed

text \<open>The keys of a Go map are unique; for such a mapping the copying loop is exact.\<close>

lemma map_of_copy_fields:
  "distinct (map fst src) \<Longrightarrow> map_of (copy_fields src dst) = map_of dst ++ map_of src"
proof (induction src arbitrary: dst)
  case Nil
  then show ?case by simp
next
  case (Cons p src)
  obtain k v where p: "p = (k, v)" by (cases p)
  from Cons.prems have k: "map_of src k = None" and d: "distinct (map fst src)"
    by (auto simp: p map_of_eq_None_iff)
  show ?case
    using k by (auto simp: p Cons.IH [OF d] update_conv' fun_eq_iff map_add_def split: option.split)
qed

lemma distinct_copy_fields:
  "distinct (map fst dst) \<Longrightarrow> distinct (map fst (copy_fields src dst))"
  by (induction src arbitrary: dst) (auto simp: distinct_update)

lemma distinct_merge_extra:
  "distinct (map fst d) \<Longrightarrow> distinct (map fst (merge_extra ex d))"
  by (induction ex arbitrary: d) (auto simp: distinct_update split: option.split)

lemma distinct_set_location:
  "distinct (map fst d) \<Longrightarrow> distinct (map fst (set_location fu d))"
  by (simp add: set_location_def distinct_update)

subsection \<open>The snapshot\<close>

lemma copyEntry_eq:
  "copyEntry h e w =
     (\<lparr>Logger = Logger e, Data = Suc (nxt w), Time = Time e, Level = Level e, Caller = None,
       Message = Message e\<rparr>,
      w\<lparr>cells := (cells w)(nxt w := [],
           Suc (nxt w) := copy_fields (((cells w)(nxt w := [], Suc (nxt w) := [])) (Data e)) []),
        nxt := Suc (Suc (nxt w))\<rparr>)"
  by (simp add: copyEntry_def NewEntry_def make_Fields_def Let_def)

lemma copyEntry_shallow:
  "Data e < nxt w \<Longrightarrow> distinct (map fst (cells w (Data e))) \<Longrightarrow>
   fields_of (snd (copyEntry h e w)) (fst (copyEntry h e w)) = fields_of w e \<and>
   Data (fst (copyEntry h e w)) \<noteq> Data e"
  by (simp add: copyEntry_eq fields_of_def map_of_copy_fields)

text \<open>
  Claim C5.  For an entry whose mapping is an object of the store, \<open>copyEntry\<close>
  returns an entry with the timestamp, level, message and logger of the original
  and a mapping that holds exactly the key/value pairs of the original, the values
  taken as they are (a reference stays the same reference).  The mapping of the
  copy is a new object: its address is none of the addresses in use before, in
  particular not that of the original, the objects that existed before are
  unchanged, and whatever is later stored in the original's mapping leaves the
  copy's mapping as it was.
\<close>

theorem copyEntry_snapshot:
  assumes "Data e < nxt w" and "distinct (map fst (cells w (Data e)))"
  shows "case copyEntry h e w of
           (c, w') \<Rightarrow>
             fields_of w' c = fields_of w e \<and>
             Time c = Time e \<and> Level c = Level e \<and> Message c = Message e \<and>
             Logger c = Logger e \<and>
             Data c \<noteq> Data e \<and> nxt w \<le> Data c \<and> Data c < nxt w' \<and>
             (\<forall>a. a < nxt w \<longrightarrow> cells w' a = cells w a) \<and>
             (\<forall>m. fields_of (w'\<lparr>cells := (cells w')(Data e := m)\<rparr>) c = fields_of w e)"
  using assms by (simp add: copyEntry_eq fields_of_def map_of_copy_fields)

theorem copyEntry_snapshot_witness:
  "Data example_entry < nxt example_world \<and>
   distinct (map fst (cells example_world (Data example_entry))) \<and>
   (case copyEntry example_hook example_entry example_world of
      (c, w') \<Rightarrow>
        fields_of w' c ''payload'' = Some (VPtr 7) \<and> Data c = 2 \<and>
        fields_of (w'\<lparr>cells := (cells w')(Data example_entry := [])\<rparr>) c ''app''
          = Some (VStr ''mine''))"
proof -
  have h1: "Data example_entry < nxt example_world"
    by (simp add: example_entry_def example_world_def)
  have h2: "distinct (map fst (cells example_world (Data example_entry)))"
    by (simp add: example_entry_def example_world_def)
  show ?thesis
    using h1 h2 copyEntry_snapshot [OF h1 h2, of example_hook]
    by (simp add: copyEntry_eq example_entry_def example_world_def fields_of_def)
qed

subsection \<open>Call-site resolution and Fire\<close>

lemma window_empty_no_fallback:
  "runtime_Callers 6 3 stk = [] \<Longrightarrow> runtime_Caller 8 stk = None"
  by (simp add: runtime_Callers_def runtime_Caller_def)

lemma map_of_resolve_loop:
  "map_of (resolve_loop pcs c8 d) =
     (case find qualifies pcs of
        Some fu \<Rightarrow> map_of (set_location fu d)
      | None \<Rightarrow>
          (case c8 of
             None \<Rightarrow> map_of d
           | Some f8 \<Rightarrow> if pcs = [] then map_of d else map_of (set_location f8 d)))"
proof (induction pcs arbitrary: d)
  case Nil
  then show ?case by (simp split: option.split)
next
  case (Cons fu pcs)
  show ?case
  proof (cases "qualifies fu")
    case True
    then show ?thesis by (simp add: qualifies_def)
  next
    case False
    then show ?thesis
      by (auto simp: qualifies_def Cons.IH map_of_set_location split: option.split)
  qed
qed

lemma map_of_resolve_stack:
  "map_of (resolve_loop (runtime_Callers 6 3 stk) (runtime_Caller 8 stk) d) =
     with_location (resolveCallSite (runtime_Callers 6 3 stk) (runtime_Caller 8 stk)) (map_of d)"
proof (cases "runtime_Callers 6 3 stk = []")
  case True
  then show ?thesis
    by (simp add: window_empty_no_fallback resolveCallSite_def with_location_def)
next
  case False
  then show ?thesis
    by (simp add: map_of_resolve_loop resolveCallSite_def with_location_def map_of_set_location
        split: option.split)
qed

lemma distinct_resolve_loop:
  "distinct (map fst d) \<Longrightarrow> distinct (map fst (resolve_loop pcs c8 d))"
  by (induction pcs arbitrary: d) (auto simp: distinct_set_location split: option.split)

lemma Fire_eq:
  "Fire h stk entry w =
     (None, h\<lparr>q := Push (q h) (fst (copyEntry h entry (annotate stk entry w)))\<rparr>,
      snd (copyEntry h entry (annotate stk entry w)))"
  by (simp add: Fire_def Let_def split: prod.split)

lemma annotate_simps:
  "nxt (annotate stk entry w) = nxt w"
  "calls (annotate stk entry w) = calls w"
  "persisted (annotate stk entry w) = persisted w"
  "written (annotate stk entry w) = written w"
  "logged (annotate stk entry w) = logged w"
  by (simp_all add: annotate_def)

lemma fields_of_annotate:
  "fields_of (annotate stk entry w) entry =
     (if HasCaller entry
      then with_location (resolveCallSite (runtime_Callers 6 3 stk) (runtime_Caller 8 stk))
             (fields_of w entry)
      else fields_of w entry)"
  by (simp add: annotate_def fields_of_def map_of_resolve_stack)

lemma distinct_annotate:
  "distinct (map fst (cells w (Data entry))) \<Longrightarrow>
   distinct (map fst (cells (annotate stk entry w) (Data entry)))"
  by (simp add: annotate_def distinct_resolve_loop)

lemma copyEntry_keeps:
  "a < nxt w \<Longrightarrow> cells (snd (copyEntry h e w)) a = cells w a"
  "calls (snd (copyEntry h e w)) = calls w"
  "persisted (snd (copyEntry h e w)) = persisted w"
  "written (snd (copyEntry h e w)) = written w"
  "logged (snd (copyEntry h e w)) = logged w"
  by (simp_all add: copyEntry_eq)


text \<open>
  Claim C6.  For an entry with caller metadata, \<open>Fire\<close> inspects at most three frames,
  those that \<open>runtime.Callers(6, pc)\<close> returns.  The mapping of the entry after \<open>Fire\<close>
  is the mapping before with \<open>file\<close> and \<open>func\<close> set from the frame that the
  specification's resolver selects: the first frame of the window that is not a
  logrus frame, else the frame of \<open>runtime.Caller(8)\<close>; \<open>file\<close> is \<open>path:line\<close> and
  \<open>func\<close> the base of the function name.  When the resolver finds no frame the
  mapping is as before, and \<open>Fire\<close> returns nil in every case.
\<close>

theorem Fire_resolves_call_site:
  assumes "HasCaller entry" and "Data entry < nxt w"
  shows "length (runtime_Callers 6 3 stk) \<le> 3 \<and>
         fst (Fire h stk entry w) = None \<and>
         fields_of (snd (snd (Fire h stk entry w))) entry =
           with_location (resolveCallSite (runtime_Callers 6 3 stk) (runtime_Caller 8 stk))
             (fields_of w entry)"
proof -
  have "cells (snd (copyEntry h entry (annotate stk entry w))) (Data entry) =
        cells (annotate stk entry w) (Data entry)"
    using assms(2) by (simp add: copyEntry_keeps annotate_simps)
  then have "fields_of (snd (snd (Fire h stk entry w))) entry =
             fields_of (annotate stk entry w) entry"
    by (simp add: Fire_eq fields_of_def)
  then show ?thesis
    using assms(1) by (simp add: fields_of_annotate Fire_eq runtime_Callers_def)
qed

theorem Fire_resolves_call_site_witness:
  "HasCaller example_entry \<and> Data example_entry < nxt example_world \<and>
   resolveCallSite (runtime_Callers 6 3 example_stack) (runtime_Caller 8 example_stack) =
     Some \<lparr>Function = ''example.com/shop/cart.Checkout'', File = ''/app/cart/cart.go'', Line = 42\<rparr> \<and>
   fields_of (snd (snd (Fire example_hook example_stack example_entry example_world)))
     example_entry ''file'' = Some (VStr ''/app/cart/cart.go:42'') \<and>
   fields_of (snd (snd (Fire example_hook example_stack example_entry example_world)))
     example_entry ''func'' = Some (VStr ''cart.Checkout'')"
proof -
  have h1: "HasCaller example_entry"
    by (simp add: HasCaller_def example_entry_def)
  have h2: "Data example_entry < nxt example_world"
    by (simp add: example_entry_def example_world_def)
  have r: "resolveCallSite (runtime_Callers 6 3 example_stack) (runtime_Caller 8 example_stack) =
     Some \<lparr>Function = ''example.com/shop/cart.Checkout'', File = ''/app/cart/cart.go'', Line = 42\<rparr>"
    by (simp add: resolveCallSite_def runtime_Callers_def runtime_Caller_def example_stack_def
        qualifies_def)
  show ?thesis
    using h1 h2 r Fire_resolves_call_site [OF h1 h2, of example_stack example_hook]
    by (simp add: with_location_def Sprintf_s_d_def format_d_def decimal.simps path_Base_def)
qed


text \<open>
  Claim C10.  \<open>Fire\<close> writes the resolved \<open>file\<close> and \<open>func\<close> into the mapping of the
  entry it was given, which is the producer's: after \<open>Fire\<close> that mapping holds them.
  The copy pushed to the queue is another object and holds the same fields, so it
  was taken after the write.  For an entry without caller metadata the mapping of
  the original is unchanged.
\<close>

theorem Fire_mutates_original:
  assumes "Data entry < nxt w" and "distinct (map fst (cells w (Data entry)))"
  shows "case Fire h stk entry w of
           (err, h', w') \<Rightarrow>
             (HasCaller entry \<longrightarrow>
                fields_of w' entry =
                  with_location
                    (resolveCallSite (runtime_Callers 6 3 stk) (runtime_Caller 8 stk))
                    (fields_of w entry)) \<and>
             (\<forall>fu. HasCaller entry \<and>
                   resolveCallSite (runtime_Callers 6 3 stk) (runtime_Caller 8 stk) = Some fu \<longrightarrow>
                fields_of w' entry ''file'' = Some (VStr (Sprintf_s_d (File fu) (Line fu))) \<and>
                fields_of w' entry ''func'' = Some (VStr (path_Base (Function fu)))) \<and>
             (running (q h) \<longrightarrow>
                (\<exists>c. jobs (q h') = jobs (q h) @ [c] \<and> Data c \<noteq> Data entry \<and>
                     fields_of w' c = fields_of w' entry)) \<and>
             (\<not> HasCaller entry \<longrightarrow> cells w' (Data entry) = cells w (Data entry))"
proof -
  let ?w1 = "annotate stk entry w"
  let ?w' = "snd (copyEntry h entry ?w1)"
  let ?c = "fst (copyEntry h entry ?w1)"
  have a: "Data entry < nxt ?w1"
    using assms(1) by (simp add: annotate_simps)
  have d: "distinct (map fst (cells ?w1 (Data entry)))"
    using assms(2) by (rule distinct_annotate)
  have keep: "cells ?w' (Data entry) = cells ?w1 (Data entry)"
    using a by (simp add: copyEntry_keeps)
  then have orig: "fields_of ?w' entry = fields_of ?w1 entry"
    by (simp add: fields_of_def)
  have snap: "fields_of ?w' ?c = fields_of ?w1 entry \<and> Data ?c \<noteq> Data entry"
    using copyEntry_shallow [OF a d, of h] by simp
  have plain: "\<not> HasCaller entry \<Longrightarrow> ?w1 = w"
    by (simp add: annotate_def)
  show ?thesis
    using orig snap keep plain
    by (auto simp: Fire_eq fields_of_annotate Push_def with_location_def)
qed


theorem Fire_mutates_original_witness:
  "Data example_entry < nxt example_world \<and>
   distinct (map fst (cells example_world (Data example_entry))) \<and>
   HasCaller example_entry \<and> running (q example_hook) \<and>
   (case Fire example_hook example_stack example_entry example_world of
      (err, h', w') \<Rightarrow>
        cells w' (Data example_entry) =
          [(''app'', VStr ''mine''), (''payload'', VPtr 7),
           (''file'', VStr ''/app/cart/cart.go:42''), (''func'', VStr ''cart.Checkout'')] \<and>
        fields_of w' (last (jobs (q h'))) ''file'' = Some (VStr ''/app/cart/cart.go:42''))"
proof -
  have h1: "Data example_entry < nxt example_world"
    by (simp add: example_entry_def example_world_def)
  have h2: "distinct (map fst (cells example_world (Data example_entry)))"
    by (simp add: example_entry_def example_world_def)
  show ?thesis
    using h1 h2 Fire_mutates_original [OF h1 h2, where h = example_hook and stk = example_stack]
    by (simp add: Fire_eq copyEntry_eq annotate_def HasCaller_def example_entry_def
        example_world_def example_hook_def example_stack_def runtime_Callers_def
        runtime_Caller_def set_location_def Sprintf_s_d_def format_d_def decimal.simps
        path_Base_def Push_def Run_def NewQueue_def fields_of_def resolveCallSite_def
        qualifies_def with_location_def)
qed

subsection \<open>The dispatch pipeline\<close>

text \<open>
  Claim C3.  In the merge step of the pipeline a key that the entry already has
  keeps the entry's own value, whatever the extra fields hold for it; a key that
  the entry lacks gets the value of the extra fields, if they have one.
\<close>

theorem merge_step_entry_wins:
  "(fields_of w entry k = Some v \<longrightarrow> fields_of (merge_step h entry w) entry k = Some v) \<and>
   (fields_of w entry k = None \<longrightarrow>
      fields_of (merge_step h entry w) entry k =
        (case extra (opts h) of None \<Rightarrow> None | Some ex \<Rightarrow> map_of ex k))"
  by (simp add: merge_step_def fields_of_def map_of_merge_extra split: option.split)

theorem merge_step_entry_wins_witness:
  "fields_of example_world example_entry ''app'' = Some (VStr ''mine'') \<and>
   map_of (the (extra (opts example_hook))) ''app'' = Some (VStr ''global'') \<and>
   fields_of (merge_step example_hook example_entry example_world) example_entry ''app''
     = Some (VStr ''mine'') \<and>
   fields_of example_world example_entry ''env'' = None \<and>
   fields_of (merge_step example_hook example_entry example_world) example_entry ''env''
     = Some (VStr ''prod'')"
  using merge_step_entry_wins [of example_world example_entry "''app''" "VStr ''mine''" example_hook]
    merge_step_entry_wins [of example_world example_entry "''env''" "VStr ''mine''" example_hook]
  by (simp add: example_world_def example_entry_def example_hook_def fields_of_def)

lemma backend_step_filterH:
  "backend_step (h\<lparr>opts := (opts h)\<lparr>filterH := x\<rparr>\<rparr>) entry w = backend_step h entry w"
  by (simp add: backend_step_def Let_def split: option.split)

text \<open>
  Claim C7.  If the filter returns the entry it is given and leaves the world as it
  is, the pipeline with this filter does what the pipeline without a filter does.
  With a backend configured, the backend is called once, on the input entry with
  the mapping after the merge step, and that mapping is the input's fields plus
  the extra fields for the keys the input lacks.
\<close>

theorem identity_filter_is_no_filter:
  assumes "f entry (merge_step h entry w) = (entry, merge_step h entry w)"
  shows "Hook_exec (h\<lparr>opts := (opts h)\<lparr>filterH := Some f\<rparr>\<rparr>) entry w =
           Hook_exec (h\<lparr>opts := (opts h)\<lparr>filterH := None\<rparr>\<rparr>) entry w \<and>
         (\<forall>b. exec (opts h) = Some b \<longrightarrow>
            (\<exists>w'. Hook_exec (h\<lparr>opts := (opts h)\<lparr>filterH := Some f\<rparr>\<rparr>) entry w = Inr w' \<and>
                  calls w' = calls w @ [(entry, cells (merge_step h entry w) (Data entry))])) \<and>
         (\<forall>k. map_of (cells (merge_step h entry w) (Data entry)) k =
            (case extra (opts h) of
               None \<Rightarrow> fields_of w entry k
             | Some ex \<Rightarrow> (map_of ex ++ fields_of w entry) k))"
proof -
  have m: "merge_step (h\<lparr>opts := (opts h)\<lparr>filterH := x\<rparr>\<rparr>) entry w = merge_step h entry w" for x
    by (simp add: merge_step_def)
  have c: "calls (merge_step h entry w) = calls w"
    by (simp add: merge_step_def split: option.split)
  have 1: "Hook_exec (h\<lparr>opts := (opts h)\<lparr>filterH := Some f\<rparr>\<rparr>) entry w =
           Hook_exec (h\<lparr>opts := (opts h)\<lparr>filterH := None\<rparr>\<rparr>) entry w"
    using assms by (simp add: Hook_exec_def filter_step_def m backend_step_filterH)
  have 2: "\<exists>w'. Hook_exec (h\<lparr>opts := (opts h)\<lparr>filterH := Some f\<rparr>\<rparr>) entry w = Inr w' \<and>
                calls w' = calls w @ [(entry, cells (merge_step h entry w) (Data entry))]"
    if "exec (opts h) = Some b" for b
    using assms that
    by (simp add: Hook_exec_def filter_step_def m backend_step_filterH backend_step_def
        Let_def c split: option.split)
  have 3: "map_of (cells (merge_step h entry w) (Data entry)) k =
            (case extra (opts h) of
               None \<Rightarrow> fields_of w entry k
             | Some ex \<Rightarrow> (map_of ex ++ fields_of w entry) k)" for k
    by (simp add: merge_step_def fields_of_def map_of_merge_extra map_add_def
        split: option.split)
  from 1 2 3 show ?thesis by blast
qed

theorem identity_filter_is_no_filter_witness:
  "identity_filter example_entry (merge_step example_hook example_entry example_world) =
     (example_entry, merge_step example_hook example_entry example_world) \<and>
   (\<exists>w'. Hook_exec (example_hook\<lparr>opts := (opts example_hook)\<lparr>filterH := Some identity_filter\<rparr>\<rparr>)
           example_entry example_world = Inr w' \<and>
         calls w' =
           [(example_entry,
             [(''app'', VStr ''mine''), (''payload'', VPtr 7), (''env'', VStr ''prod'')])])"
proof -
  have h1: "identity_filter example_entry (merge_step example_hook example_entry example_world) =
     (example_entry, merge_step example_hook example_entry example_world)"
    by (simp add: identity_filter_def)
  have b: "exec (opts example_hook) = Some disk_full"
    by (simp add: example_hook_def)
  have m: "cells (merge_step example_hook example_entry example_world) (Data example_entry) =
     [(''app'', VStr ''mine''), (''payload'', VPtr 7), (''env'', VStr ''prod'')]"
    by (simp add: merge_step_def example_hook_def example_entry_def example_world_def)
  have c: "calls example_world = []"
    by (simp add: example_world_def)
  note t = identity_filter_is_no_filter [where f = identity_filter and h = example_hook
      and entry = example_entry and w = example_world, OF h1]
  from t b have "\<exists>w'. Hook_exec
        (example_hook\<lparr>opts := (opts example_hook)\<lparr>filterH := Some identity_filter\<rparr>\<rparr>)
        example_entry example_world = Inr w' \<and>
      calls w' = calls example_world @
        [(example_entry,
          cells (merge_step example_hook example_entry example_world) (Data example_entry))]"
    by blast
  then show ?thesis
    using h1 by (simp only: m c append_Nil simp_thms)
qed


subsection \<open>Backend failures, the missing backend and the defaults\<close>

lemma strings_Contains_append: "strings_Contains (p @ msg) msg"
  by (simp add: strings_Contains_sublist)

lemma merge_step_simps:
  "nxt (merge_step h entry w) = nxt w"
  "calls (merge_step h entry w) = calls w"
  "persisted (merge_step h entry w) = persisted w"
  "written (merge_step h entry w) = written w"
  "logged (merge_step h entry w) = logged w"
  by (simp_all add: merge_step_def split: option.split)

lemma Hook_exec_failing:
  assumes "exec (opts h) = Some b" and "out (opts h) = Some wr"
    and "filter_step h entry (merge_step h entry w) = (e', w2)"
    and "b e' (cells w2 (Data e')) = Some msg"
  shows "Hook_exec h entry w =
           Inr (w2\<lparr>calls := calls w2 @ [(e', cells w2 (Data e'))],
                    written := written w2 @ [(wr, ''[Mongo-Hook] Execution error: '' @ msg)]\<rparr>)"
  using assms by (simp add: Hook_exec_def backend_step_def Let_def)

lemma fire_all_keeps:
  "running (q h) \<Longrightarrow>
   opts (fst (fire_all h es w)) = opts h \<and>
   running (q (fst (fire_all h es w))) \<and>
   length (jobs (q (fst (fire_all h es w)))) = length (jobs (q h)) + length es \<and>
   calls (snd (fire_all h es w)) = calls w \<and>
   persisted (snd (fire_all h es w)) = persisted w \<and>
   written (snd (fire_all h es w)) = written w"
proof (induction es arbitrary: h w)
  case Nil
  then show ?case by simp
next
  case (Cons p es)
  obtain stk e where p: "p = (stk, e)" by (cases p)
  let ?h = "h\<lparr>q := Push (q h) (fst (copyEntry h e (annotate stk e w)))\<rparr>"
  let ?w = "snd (copyEntry h e (annotate stk e w))"
  have r: "running (q ?h)"
    using Cons.prems by (simp add: Push_def)
  have f: "fire_all h (p # es) w = fire_all ?h es ?w"
    by (simp add: p Fire_eq)
  show ?case
    using Cons.IH [OF r, of ?w] Cons.prems
    by (simp add: f Push_def copyEntry_keeps annotate_simps)
qed

lemma run_jobs_failing:
  assumes "exec (opts h) = Some (\<lambda>entry d. Some msg)" and "out (opts h) = Some wr"
    and "filterH (opts h) = None"
  shows "\<exists>w'. run_jobs h js w = Inr w' \<and>
           written w' = written w @ replicate (length js) (wr, ''[Mongo-Hook] Execution error: '' @ msg) \<and>
           persisted w' = persisted w \<and>
           length (calls w') = length (calls w) + length js"
proof (induction js arbitrary: w)
  case Nil
  then show ?case by simp
next
  case (Cons j js)
  let ?w2 = "merge_step h j w"
  let ?w3 = "?w2\<lparr>calls := calls ?w2 @ [(j, cells ?w2 (Data j))],
                  written := written ?w2 @ [(wr, ''[Mongo-Hook] Execution error: '' @ msg)]\<rparr>"
  have fs: "filter_step h j ?w2 = (j, ?w2)"
    using assms(3) by (simp add: filter_step_def)
  have e: "Hook_exec h j w = Inr ?w3"
    using Hook_exec_failing [OF assms(1) assms(2) fs] by simp
  obtain w' where w': "run_jobs h js ?w3 = Inr w'"
    "written w' = written ?w3 @ replicate (length js) (wr, ''[Mongo-Hook] Execution error: '' @ msg)"
    "persisted w' = persisted ?w3" "length (calls w') = length (calls ?w3) + length js"
    using Cons.IH [of ?w3] by blast
  show ?case
    using w' by (simp add: e merge_step_simps replicate_append_same)
qed

lemma New_eq:
  "New opt w =
     (\<lparr>opts = fold (\<lambda>f acc. f acc) opt defaultOptions,
       q = \<lparr>capacity = maxQueues (fold (\<lambda>f acc. f acc) opt defaultOptions),
            workers = maxWorkers (fold (\<lambda>f acc. f acc) opt defaultOptions),
            running = True, jobs = []\<rparr>\<rparr>,
      case exec (fold (\<lambda>f acc. f acc) opt defaultOptions) of
        None \<Rightarrow> w\<lparr>logged := logged w @ [(InfoLevel, ''Unknown Execer interface implementation'')]\<rparr>
      | Some b \<Rightarrow> w)"
  by (simp add: New_def Let_def Run_def NewQueue_def)

text \<open>
  Claim C4.  When the backend returns an error for the entry that reaches it (the
  entry after the merge and the filter), \<open>exec\<close> returns normally; it has called the
  backend once, written one line to the configured sink, the line being
  \<open>[Mongo-Hook] Execution error: \<close> followed by the error's message, and persisted
  nothing.  With a backend that always fails with \<open>disk full\<close>, firing any five
  entries and flushing adds exactly five such lines to the standard error stream,
  each containing \<open>disk full\<close>, makes five backend calls and persists no entry.
\<close>

theorem exec_failure_is_reported:
  "(exec (opts h) = Some b \<and> out (opts h) = Some wr \<and>
    filter_step h entry (merge_step h entry w) = (e', w2) \<and>
    b e' (cells w2 (Data e')) = Some msg \<longrightarrow>
      Hook_exec h entry w =
        Inr (w2\<lparr>calls := calls w2 @ [(e', cells w2 (Data e'))],
                 written := written w2 @ [(wr, ''[Mongo-Hook] Execution error: '' @ msg)]\<rparr>) \<and>
      strings_Contains (''[Mongo-Hook] Execution error: '' @ msg) msg) \<and>
   (length es = 5 \<longrightarrow>
      (case New [SetExec (Some disk_full)] w of
         (h0, w0) \<Rightarrow>
           (case fire_all h0 es w0 of
              (h1, w1) \<Rightarrow>
                (\<exists>h2 w3. Flush h1 w1 = Inr (h2, w3) \<and>
                   written w3 = written w @
                     replicate 5 (Stderr, ''[Mongo-Hook] Execution error: disk full'') \<and>
                   strings_Contains ''[Mongo-Hook] Execution error: disk full'' ''disk full'' \<and>
                   persisted w3 = persisted w \<and>
                   length (calls w3) = length (calls w) + 5 \<and>
                   jobs (q h2) = []))))"
proof -
  have 1: "Hook_exec h entry w =
        Inr (w2\<lparr>calls := calls w2 @ [(e', cells w2 (Data e'))],
                 written := written w2 @ [(wr, ''[Mongo-Hook] Execution error: '' @ msg)]\<rparr>)"
    if "exec (opts h) = Some b" "out (opts h) = Some wr"
      "filter_step h entry (merge_step h entry w) = (e', w2)"
      "b e' (cells w2 (Data e')) = Some msg"
    using that by (rule Hook_exec_failing)
  have 2: "case New [SetExec (Some disk_full)] w of
         (h0, w0) \<Rightarrow>
           (case fire_all h0 es w0 of
              (h1, w1) \<Rightarrow>
                (\<exists>h2 w3. Flush h1 w1 = Inr (h2, w3) \<and>
                   written w3 = written w @
                     replicate 5 (Stderr, ''[Mongo-Hook] Execution error: disk full'') \<and>
                   strings_Contains ''[Mongo-Hook] Execution error: disk full'' ''disk full'' \<and>
                   persisted w3 = persisted w \<and>
                   length (calls w3) = length (calls w) + 5 \<and>
                   jobs (q h2) = []))"
    if len: "length es = 5"
  proof -
    let ?h0 = "fst (New [SetExec (Some disk_full)] w)"
    have w0: "snd (New [SetExec (Some disk_full)] w) = w"
      by (simp add: New_eq SetExec_def defaultOptions_def)
    have o: "exec (opts ?h0) = Some (\<lambda>entry d. Some ''disk full'')" "out (opts ?h0) = Some Stderr"
      "filterH (opts ?h0) = None" "running (q ?h0)" "jobs (q ?h0) = []"
      by (simp_all add: New_eq SetExec_def defaultOptions_def disk_full_def)
    let ?h1 = "fst (fire_all ?h0 es w)"
    let ?w1 = "snd (fire_all ?h0 es w)"
    note k = fire_all_keeps [OF o(4), of es w]
    have o1: "exec (opts ?h1) = Some (\<lambda>entry d. Some ''disk full'')" "out (opts ?h1) = Some Stderr"
      "filterH (opts ?h1) = None"
      using k o by simp_all
    have n: "length (jobs (q ?h1)) = 5"
      using k o len by simp
    obtain w3 where w3: "run_jobs ?h1 (jobs (q ?h1)) ?w1 = Inr w3"
      "written w3 = written ?w1 @ replicate (length (jobs (q ?h1)))
          (Stderr, ''[Mongo-Hook] Execution error: '' @ ''disk full'')"
      "persisted w3 = persisted ?w1" "length (calls w3) = length (calls ?w1) + length (jobs (q ?h1))"
      using run_jobs_failing [OF o1, of "jobs (q ?h1)" ?w1] by blast
    have c: "strings_Contains ''[Mongo-Hook] Execution error: disk full'' ''disk full''"
      by simp
    have "Flush ?h1 ?w1 = Inr (?h1\<lparr>q := (q ?h1)\<lparr>running := False, jobs := []\<rparr>\<rparr>, w3)"
      using k w3(1) by (simp add: Flush_def)
    then show ?thesis
      using w3 k n c by (simp add: split_beta w0)
  qed
  have 3: "strings_Contains (''[Mongo-Hook] Execution error: '' @ msg) msg"
    by (rule strings_Contains_append)
  from 1 2 3 show ?thesis
    by blast
qed


theorem exec_failure_is_reported_witness:
  "exec (opts example_hook) = Some disk_full \<and> out (opts example_hook) = Some Stderr \<and>
   filter_step example_hook example_entry (merge_step example_hook example_entry example_world) =
     (example_entry, merge_step example_hook example_entry example_world) \<and>
   disk_full example_entry
     (cells (merge_step example_hook example_entry example_world) (Data example_entry)) =
     Some ''disk full'' \<and>
   (\<exists>w'. Hook_exec example_hook example_entry example_world = Inr w' \<and>
         written w' = [(Stderr, ''[Mongo-Hook] Execution error: disk full'')] \<and>
         persisted w' = [] \<and> length (calls w') = 1) \<and>
   length (replicate 5 (example_stack, example_entry)) = 5 \<and>
   (case New [SetExec (Some disk_full)] example_world of
      (h0, w0) \<Rightarrow>
        (case fire_all h0 (replicate 5 (example_stack, example_entry)) w0 of
           (h1, w1) \<Rightarrow>
             (\<exists>h2 w3. Flush h1 w1 = Inr (h2, w3) \<and>
                written w3 = replicate 5 (Stderr, ''[Mongo-Hook] Execution error: disk full'') \<and>
                persisted w3 = [])))"
proof -
  let ?w2 = "merge_step example_hook example_entry example_world"
  let ?es = "replicate 5 (example_stack, example_entry)"
  have a1: "exec (opts example_hook) = Some disk_full"
    and a2: "out (opts example_hook) = Some Stderr"
    by (simp_all add: example_hook_def defaultOptions_def)
  have a3: "filter_step example_hook example_entry ?w2 = (example_entry, ?w2)"
    by (simp add: filter_step_def example_hook_def defaultOptions_def)
  have a4: "disk_full example_entry (cells ?w2 (Data example_entry)) = Some ''disk full''"
    by (simp add: disk_full_def)
  have a5: "length ?es = 5"
    by simp
  have e: "written example_world = []" "persisted example_world = []" "calls example_world = []"
    by (simp_all add: example_world_def)
  note t = exec_failure_is_reported [where h = example_hook and b = disk_full and wr = Stderr
      and entry = example_entry and w = example_world and e' = example_entry and ?w2.0 = ?w2
      and msg = "''disk full''" and es = ?es]
  have a: "exec (opts example_hook) = Some disk_full \<and> out (opts example_hook) = Some Stderr \<and>
      filter_step example_hook example_entry ?w2 = (example_entry, ?w2) \<and>
      disk_full example_entry (cells ?w2 (Data example_entry)) = Some ''disk full''"
    using a1 a2 a3 a4 by (intro conjI)
  have "Hook_exec example_hook example_entry example_world =
      Inr (?w2\<lparr>calls := calls ?w2 @ [(example_entry, cells ?w2 (Data example_entry))],
               written := written ?w2 @
                 [(Stderr, ''[Mongo-Hook] Execution error: '' @ ''disk full'')]\<rparr>)"
    using t [THEN conjunct1, THEN mp, OF a] by (rule conjunct1)
  then have c1: "\<exists>w'. Hook_exec example_hook example_entry example_world = Inr w' \<and>
         written w' = [(Stderr, ''[Mongo-Hook] Execution error: disk full'')] \<and>
         persisted w' = [] \<and> length (calls w') = 1"
    by (simp add: merge_step_simps e)
  note t2 = t [THEN conjunct2, THEN mp, OF a5]
  from t2 have c2: "case New [SetExec (Some disk_full)] example_world of
      (h0, w0) \<Rightarrow>
        (case fire_all h0 ?es w0 of
           (h1, w1) \<Rightarrow>
             (\<exists>h2 w3. Flush h1 w1 = Inr (h2, w3) \<and>
                written w3 = replicate 5 (Stderr, ''[Mongo-Hook] Execution error: disk full'') \<and>
                persisted w3 = []))"
    by (auto simp: e split_beta)
  from a1 a2 a3 a4 a5 c1 c2 show ?thesis
    by blast
qed

text \<open>
  Claim C1.  \<open>New\<close> without options returns a hook with no backend and a running
  queue, and logs one message at level Info.  \<open>Fire\<close> on this hook returns nil, but
  the pipeline does not complete: \<open>exec\<close> calls \<open>Exec\<close> on the nil interface, for every
  entry, and so does the job that \<open>Flush\<close> waits for.
\<close>

theorem backendless_hook_panics:
  "case New [] w of
     (h, w0) \<Rightarrow>
       exec (opts h) = None \<and> running (q h) \<and>
       logged w0 = logged w @ [(InfoLevel, ''Unknown Execer interface implementation'')] \<and>
       Hook_exec h entry w0 = Inl NilPointerDereference \<and>
       (case Fire h stk entry w0 of
          (err, h1, w1) \<Rightarrow> err = None \<and> Flush h1 w1 = Inl NilPointerDereference)"
  by (simp add: New_eq defaultOptions_def Hook_exec_def filter_step_def backend_step_def
      Fire_eq Flush_def Push_def)

text \<open>
  Claim C8.  The hook that \<open>New\<close> builds without options has queue capacity 512, two
  workers, the levels Fatal, Error, Warn, Info, Debug (five levels, in strictly
  increasing logrus value, that is from most to least severe), no extra fields, no
  filter, no backend and the standard error stream as sink.  \<open>Levels\<close> returns the
  levels of the options: the defaults, or those given to \<open>SetLevels\<close> unless none
  are given.
\<close>

theorem default_hook:
  "(case New [] w of
      (h, w') \<Rightarrow>
        maxQueues (opts h) = 512 \<and> maxWorkers (opts h) = 2 \<and>
        capacity (q h) = 512 \<and> workers (q h) = 2 \<and>
        levels (opts h) = [FatalLevel, ErrorLevel, WarnLevel, InfoLevel, DebugLevel] \<and>
        length (levels (opts h)) = 5 \<and>
        sorted_wrt (<) (map level_value (levels (opts h))) \<and>
        extra (opts h) = None \<and> filterH (opts h) = None \<and> exec (opts h) = None \<and>
        out (opts h) = Some Stderr \<and>
        Levels h = [FatalLevel, ErrorLevel, WarnLevel, InfoLevel, DebugLevel]) \<and>
   Levels h' = levels (opts h') \<and>
   Levels (fst (New [SetLevels ls] w)) =
     (if ls = [] then [FatalLevel, ErrorLevel, WarnLevel, InfoLevel, DebugLevel] else ls)"
  by (simp add: New_eq defaultOptions_def Levels_def SetLevels_def)


end
